theory Spec2Isabelle
  imports Complex_Main
begin

text \<open>
  A model of the core of the cognitive-agent runtime: the event bus, the memory module,
  the rule-based reasoning engine and the cognitive core that drives them. Each Python
  method is a function from its arguments and the object's state to its result and the
  new state; the clock is an argument; the callables the caller passes in (rule
  conditions and actions, event handlers) are parameters, with a raised exception as one
  of their outcomes.
\<close>

section \<open>Values, time and errors\<close>

text \<open>
  The Python sources pass untyped data (\<open>Any\<close>) between the components: event
  payloads, memory data, perceptions and decisions. The model uses one type of
  JSON-like values for them; a dictionary is an association list with string keys, and
  \<open>VTime t\<close> is the ISO-8601 string \<open>t.isoformat()\<close> of an instant.
\<close>

datatype val =
    VNone
  | VBool bool
  | VInt int
  | VFloat real
  | VStr string
  | VTime int
  | VList "val list"
  | VDict "(string \<times> val) list"

text \<open>
  A \<open>datetime\<close> is a count of microseconds (the resolution of Python's
  \<open>datetime\<close>); \<open>datetime.now()\<close> is an input of every operation that reads the
  clock, and one call reads one instant. \<open>isoformat\<close> and \<open>fromisoformat\<close> are
  inverse on the values the program writes, so a stored timestamp is the instant itself.
\<close>

type_synonym time = int


datatype py_error = ValueError | AttributeError

text \<open>
  \<open>xs[-limit:]\<close> for an integer \<open>limit\<close>: the last \<open>limit\<close> elements when
  \<open>limit\<close> is positive, the whole list when it is zero (the slice \<open>xs[0:]\<close>), and
  \<open>xs[k:]\<close> when \<open>limit = -k\<close> is negative.
\<close>

definition slice_last :: "int \<Rightarrow> 'a list \<Rightarrow> 'a list" where
  "slice_last limit xs =
     (if 0 < limit then drop (length xs - nat limit) xs else drop (nat (- limit)) xs)"

section \<open>MemoryModule (src/modules/memory\_module.py)\<close>

record memory_entry =
  entry_type :: string
  entry_data :: val
  entry_timestamp :: time

text \<open>
  The JSON file of a memory module: absent, unreadable (any failure of \<open>open\<close> or
  \<open>json.load\<close>), or the dictionary \<open>_save\<close> wrote.
\<close>

datatype json_file =
    Missing
  | Unreadable
  | Saved "string \<rightharpoonup> memory_entry list" "string \<rightharpoonup> nat list" time

record memory_module =
  max_short_term :: nat
  short_term :: "memory_entry list"
  long_term :: "string \<rightharpoonup> memory_entry list"
  index_by_type :: "string \<rightharpoonup> nat list"
  memory_file :: json_file

text \<open>
  \<open>deque(maxlen=n).append(x)\<close>: the item is appended on the right and, when the deque
  then holds more than \<open>maxlen\<close> items, one is dropped from the left.
\<close>

definition deque_append :: "nat \<Rightarrow> 'a list \<Rightarrow> 'a \<Rightarrow> 'a list" where
  "deque_append maxlen q x = (let q' = q @ [x] in if maxlen < length q' then tl q' else q')"

text \<open>
  \<open>MemoryModule.__init__\<close> with \<open>_load\<close>. \<open>deque(maxlen=...)\<close> raises ValueError for a
  negative bound, so no module with a negative capacity exists.
\<close>

definition MemoryModule_init :: "json_file \<Rightarrow> int \<Rightarrow> py_error + memory_module" where
  "MemoryModule_init f cap =
     (if cap < 0 then Inl ValueError
      else Inr \<lparr> max_short_term = nat cap,
                 short_term = [],
                 long_term = (case f of Saved lt ix t \<Rightarrow> lt | _ \<Rightarrow> Map.empty),
                 index_by_type = (case f of Saved lt ix t \<Rightarrow> ix | _ \<Rightarrow> Map.empty),
                 memory_file = f \<rparr>)"

text \<open>
  \<open>persist\<close> runs \<open>_save\<close>, which overwrites the file with the long-term map, the
  index and the time of the write. A failing write is caught inside \<open>_save\<close> and never
  reaches the caller; the model takes the write to succeed.
\<close>

definition persist :: "time \<Rightarrow> memory_module \<Rightarrow> memory_module" where
  "persist now m = m\<lparr> memory_file := Saved (long_term m) (index_by_type m) now \<rparr>"

definition store :: "string \<Rightarrow> val \<Rightarrow> time \<Rightarrow> memory_module \<Rightarrow> memory_module" where
  "store memory_type data now m =
     (let memory_entry = \<lparr> entry_type = memory_type, entry_data = data, entry_timestamp = now \<rparr>;
          st = deque_append (max_short_term m) (short_term m) memory_entry;
          old = (case long_term m memory_type of None \<Rightarrow> [] | Some es \<Rightarrow> es);
          lt = (long_term m)(memory_type \<mapsto> old @ [memory_entry]);
          oldix = (case index_by_type m memory_type of None \<Rightarrow> [] | Some ix \<Rightarrow> ix);
          ix = (index_by_type m)(memory_type \<mapsto> oldix @ [length (old @ [memory_entry]) - 1]);
          m' = m\<lparr> short_term := st, long_term := lt, index_by_type := ix \<rparr>
      in if length st mod 10 = 0 then persist now m' else m')"

definition recall :: "string \<Rightarrow> int \<Rightarrow> memory_module \<Rightarrow> memory_entry list option" where
  "recall query limit m =
     (let short_term_results = filter (\<lambda>entry. entry_type entry = query) (short_term m)
      in if short_term_results \<noteq> [] then Some (slice_last limit short_term_results)
         else (case long_term m query of
                 Some es \<Rightarrow> Some (slice_last limit es)
               | None \<Rightarrow>
                   if query = ''recent_context''
                   then (let recent = slice_last limit (short_term m)
                         in if recent \<noteq> [] then Some recent else None)
                   else None))"


definition clear :: "time \<Rightarrow> memory_module \<Rightarrow> memory_module" where
  "clear now m = persist now (m\<lparr> short_term := [], long_term := Map.empty, index_by_type := Map.empty \<rparr>)"

text \<open>A sequence of \<open>store\<close> calls, each with its type, its data and the instant of the call.\<close>

fun stores :: "(string \<times> val \<times> time) list \<Rightarrow> memory_module \<Rightarrow> memory_module" where
  "stores [] m = m"
| "stores ((t, d, now) # calls) m = stores calls (store t d now m)"

definition entry_of :: "string \<times> val \<times> time \<Rightarrow> memory_entry" where
  "entry_of c = (case c of (t, d, now) \<Rightarrow> \<lparr> entry_type = t, entry_data = d, entry_timestamp = now \<rparr>)"

text \<open>The time of the last write of the module's file, if it was ever written.\<close>

definition last_saved :: "memory_module \<Rightarrow> time option" where
  "last_saved m = (case memory_file m of Saved lt ix t \<Rightarrow> Some t | _ \<Rightarrow> None)"

section \<open>ReasoningEngine (src/modules/reasoning\_engine.py)\<close>

text \<open>The dictionary \<open>reasoning_context\<close> that \<open>reason\<close> builds and hands to every rule.\<close>

record reasoning_context =
  rc_perceptions :: "val list"
  rc_context :: val
  rc_timestamp :: time
  rc_perception_count :: nat

text \<open>
  A rule's \<open>condition\<close> and \<open>action\<close> are callables of the caller; the model takes
  them as functions of the context whose result \<open>None\<close> stands for a raised
  \<open>Exception\<close>.
\<close>

record rule =
  rule_name :: string
  condition :: "reasoning_context \<Rightarrow> bool option"
  action :: "reasoning_context \<Rightarrow> val option"
  priority :: int
  execution_count :: nat
  last_executed :: "time option"

definition Rule_init ::
  "string \<Rightarrow> (reasoning_context \<Rightarrow> bool option) \<Rightarrow> (reasoning_context \<Rightarrow> val option) \<Rightarrow> int \<Rightarrow> rule" where
  "Rule_init name cond act prio =
     \<lparr> rule_name = name, condition = cond, action = act, priority = prio,
       execution_count = 0, last_executed = None \<rparr>"

definition evaluate :: "rule \<Rightarrow> reasoning_context \<Rightarrow> bool" where
  "evaluate r ctx = (case condition r ctx of Some b \<Rightarrow> b | None \<Rightarrow> False)"

text \<open>\<open>Rule.execute\<close>: the result and the rule as the call leaves it.\<close>

definition execute :: "rule \<Rightarrow> reasoning_context \<Rightarrow> time \<Rightarrow> val \<times> rule" where
  "execute r ctx now =
     (case action r ctx of
        Some result \<Rightarrow>
          (result, r\<lparr> execution_count := execution_count r + 1, last_executed := Some now \<rparr>)
      | None \<Rightarrow> (VNone, r))"

record reasoning_record =
  rule_used :: string
  applicable_names :: "string list"
  decision :: val
  record_timestamp :: time

record reasoning_engine =
  rules :: "rule list"
  reasoning_history :: "reasoning_record list"
  adaptive_weights :: "string \<rightharpoonup> real"

definition ReasoningEngine_init :: reasoning_engine where
  "ReasoningEngine_init = \<lparr> rules = [], reasoning_history = [], adaptive_weights = Map.empty \<rparr>"

text \<open>
  \<open>list.sort(key=priority, reverse=True)\<close> is a stable sort by descending priority; so is
  the insertion sort \<open>sort_key\<close> on the negated priority.
\<close>

definition add_rule ::
  "string \<Rightarrow> (reasoning_context \<Rightarrow> bool option) \<Rightarrow> (reasoning_context \<Rightarrow> val option) \<Rightarrow> int
     \<Rightarrow> reasoning_engine \<Rightarrow> reasoning_engine" where
  "add_rule name cond act prio e =
     e\<lparr> rules := sort_key (\<lambda>r. - priority r) (rules e @ [Rule_init name cond act prio]),
        adaptive_weights := (adaptive_weights e)(name \<mapsto> 1) \<rparr>"

fun pop_named :: "string \<Rightarrow> rule list \<Rightarrow> rule list option" where
  "pop_named name [] = None"
| "pop_named name (r # rs) =
     (if rule_name r = name then Some rs else map_option ((#) r) (pop_named name rs))"

definition remove_rule :: "string \<Rightarrow> reasoning_engine \<Rightarrow> bool \<times> reasoning_engine" where
  "remove_rule name e =
     (case pop_named name (rules e) of
        Some rs \<Rightarrow> (True, e\<lparr> rules := rs, adaptive_weights := (adaptive_weights e)(name := None) \<rparr>)
      | None \<Rightarrow> (False, e))"

text \<open>
  The key of \<open>max\<close> in \<open>reason\<close>: \<open>r.priority * self._adaptive_weights.get(r.name, 1.0)\<close>.
  The floating-point product is taken in exact real arithmetic.
\<close>

definition weight_of :: "reasoning_engine \<Rightarrow> string \<Rightarrow> real" where
  "weight_of e name = (case adaptive_weights e name of Some w \<Rightarrow> w | None \<Rightarrow> 1)"

definition rule_key :: "reasoning_engine \<Rightarrow> rule \<Rightarrow> real" where
  "rule_key e r = real_of_int (priority r) * weight_of e (rule_name r)"

text \<open>
  Python's \<open>max(iterable, key=...)\<close> on a non-empty iterable: the running maximum is
  replaced only by an item whose key is strictly greater, so the first maximal item wins.
\<close>

fun py_max_from :: "('a \<Rightarrow> 'k::linorder) \<Rightarrow> 'a \<Rightarrow> 'a list \<Rightarrow> 'a" where
  "py_max_from key best [] = best"
| "py_max_from key best (item # rest) =
     py_max_from key (if key best < key item then item else best) rest"

definition default_reasoning :: "reasoning_context \<Rightarrow> val" where
  "default_reasoning ctx =
     (if 10 < length (rc_perceptions ctx)
      then VDict [(''action'', VStr ''process''), (''confidence'', VFloat 0.6),
                  (''reason'', VStr ''many_perceptions'')]
      else if 0 < length (rc_perceptions ctx)
      then VDict [(''action'', VStr ''observe''), (''confidence'', VFloat 0.5),
                  (''reason'', VStr ''few_perceptions'')]
      else VDict [(''action'', VStr ''wait''), (''confidence'', VFloat 0.4),
                  (''reason'', VStr ''no_perceptions'')])"

text \<open>
  The rules are objects that \<open>reason\<close> mutates in place; the model names each by its
  position in \<open>rules\<close>, so \<open>applicable_rules\<close> is the list of positions, in rule order,
  of the rules whose condition holds.
\<close>

definition make_context :: "val list \<Rightarrow> val \<Rightarrow> time \<Rightarrow> reasoning_context" where
  "make_context perceptions context now =
     \<lparr> rc_perceptions = perceptions, rc_context = context, rc_timestamp = now,
       rc_perception_count = length perceptions \<rparr>"

definition applicable_rules :: "reasoning_engine \<Rightarrow> reasoning_context \<Rightarrow> nat list" where
  "applicable_rules e ctx = filter (\<lambda>i. evaluate (rules e ! i) ctx) [0..<length (rules e)]"

text \<open>
  The rule \<open>reason\<close> selects: none when no rule is applicable (the early return with the
  default decision), otherwise \<open>max(applicable_rules, key=...)\<close>.
\<close>

definition best_rule :: "reasoning_engine \<Rightarrow> reasoning_context \<Rightarrow> nat option" where
  "best_rule e ctx =
     (case applicable_rules e ctx of
        [] \<Rightarrow> None
      | first # others \<Rightarrow> Some (py_max_from (\<lambda>i. rule_key e (rules e ! i)) first others))"

definition truncate_history :: "reasoning_record list \<Rightarrow> reasoning_record list" where
  "truncate_history history = (if 1000 < length history then slice_last 500 history else history)"

definition reason :: "val list \<Rightarrow> val \<Rightarrow> time \<Rightarrow> reasoning_engine \<Rightarrow> val \<times> reasoning_engine" where
  "reason perceptions context now e =
     (let ctx = make_context perceptions context now
      in case best_rule e ctx of
           None \<Rightarrow> (default_reasoning ctx, e)
         | Some b \<Rightarrow>
             (let (result, r') = execute (rules e ! b) ctx now;
                  reasoning_record =
                    \<lparr> rule_used = rule_name (rules e ! b),
                      applicable_names = map (\<lambda>i. rule_name (rules e ! i)) (applicable_rules e ctx),
                      decision = result,
                      record_timestamp = now \<rparr>
              in (result,
                  e\<lparr> rules := (rules e)[b := r'],
                     reasoning_history := truncate_history (reasoning_history e @ [reasoning_record]) \<rparr>)))"


definition get_history :: "int \<Rightarrow> reasoning_engine \<Rightarrow> reasoning_record list" where
  "get_history limit e = slice_last limit (reasoning_history e)"

section \<open>EventBus (src/core/event\_bus.py)\<close>

record event =
  ev_type :: string
  ev_data :: val
  ev_timestamp :: time
  ev_source :: string

text \<open>
  A handler is a callable compared by identity; the model names it by a number. What the
  bus does with a handler is call it, so the bus state carries the log of the calls made
  (\<open>invocations\<close>, oldest first) and of the error lines \<open>_dispatch\<close> printed for
  handlers that raised. \<open>listeners\<close> is a \<open>defaultdict(list)\<close>: a key exists once
  \<open>subscribe\<close> has touched it.
\<close>

type_synonym handler = nat

record event_bus =
  listeners :: "string \<rightharpoonup> handler list"
  event_queue :: "event list"
  bus_running :: bool
  invocations :: "(handler \<times> event) list"
  handler_errors :: "(handler \<times> event) list"

definition EventBus_init :: event_bus where
  "EventBus_init =
     \<lparr> listeners = Map.empty, event_queue = [], bus_running = False,
       invocations = [], handler_errors = [] \<rparr>"

definition listeners_get :: "event_bus \<Rightarrow> string \<Rightarrow> handler list" where
  "listeners_get b t = (case listeners b t of Some hs \<Rightarrow> hs | None \<Rightarrow> [])"

definition subscribe :: "string \<Rightarrow> handler \<Rightarrow> event_bus \<Rightarrow> event_bus" where
  "subscribe event_type callback b =
     b\<lparr> listeners := (listeners b)(event_type \<mapsto> listeners_get b event_type @ [callback]) \<rparr>"

text \<open>
  \<open>list.remove(x)\<close> deletes the first occurrence of \<open>x\<close> and raises ValueError when
  there is none.
\<close>

definition list_remove :: "'a \<Rightarrow> 'a list \<Rightarrow> py_error + 'a list" where
  "list_remove x xs = (if x \<in> set xs then Inr (remove1 x xs) else Inl ValueError)"

definition unsubscribe :: "string \<Rightarrow> handler \<Rightarrow> event_bus \<Rightarrow> py_error + event_bus" where
  "unsubscribe event_type callback b =
     (case listeners b event_type of
        None \<Rightarrow> Inr b
      | Some hs \<Rightarrow>
          (case list_remove callback hs of
             Inl err \<Rightarrow> Inl err
           | Inr hs' \<Rightarrow> Inr (b\<lparr> listeners := (listeners b)(event_type \<mapsto> hs') \<rparr>)))"

definition publish :: "event \<Rightarrow> event_bus \<Rightarrow> event_bus" where
  "publish ev b = b\<lparr> event_queue := event_queue b @ [ev] \<rparr>"

definition emit :: "string \<Rightarrow> val \<Rightarrow> string \<Rightarrow> time \<Rightarrow> event_bus \<Rightarrow> event_bus" where
  "emit event_type data source now b =
     publish \<lparr> ev_type = event_type, ev_data = data, ev_timestamp = now, ev_source = source \<rparr> b"

text \<open>
  The loop of \<open>_dispatch\<close> over the handlers of the event's type. \<open>raises h ev\<close> says
  whether handler \<open>h\<close> raises on \<open>ev\<close>; the exception is caught and printed, and the
  loop goes on with the next handler.
\<close>

fun dispatch_to :: "(handler \<Rightarrow> event \<Rightarrow> bool) \<Rightarrow> event \<Rightarrow> handler list \<Rightarrow> event_bus \<Rightarrow> event_bus" where
  "dispatch_to raises ev [] b = b"
| "dispatch_to raises ev (callback # rest) b =
     dispatch_to raises ev rest
       (let b' = b\<lparr> invocations := invocations b @ [(callback, ev)] \<rparr>
        in if raises callback ev
           then b'\<lparr> handler_errors := handler_errors b' @ [(callback, ev)] \<rparr>
           else b')"

definition dispatch :: "(handler \<Rightarrow> event \<Rightarrow> bool) \<Rightarrow> event \<Rightarrow> event_bus \<Rightarrow> event_bus" where
  "dispatch raises ev b = dispatch_to raises ev (listeners_get b (ev_type ev)) b"

text \<open>
  \<open>start\<close> sets the flag and loops; other tasks (publishers, \<open>stop\<close>) run while the
  loop waits on the queue. The steps of a bus are therefore: a publish, the entry of
  \<open>start\<close>, one pass of its \<open>while self._running\<close> loop (the loop ends when the flag
  is off; on an empty queue the wait times out and the pass changes nothing; otherwise
  the oldest event is taken and dispatched), and \<open>stop\<close>.
\<close>

datatype bus_op = Publish event | StartEnter | StartPass | BusStop

definition start_pass :: "(handler \<Rightarrow> event \<Rightarrow> bool) \<Rightarrow> event_bus \<Rightarrow> event_bus" where
  "start_pass raises b =
     (if \<not> bus_running b then b
      else case event_queue b of
             [] \<Rightarrow> b
           | ev # rest \<Rightarrow> dispatch raises ev (b\<lparr> event_queue := rest \<rparr>))"

fun bus_step :: "(handler \<Rightarrow> event \<Rightarrow> bool) \<Rightarrow> bus_op \<Rightarrow> event_bus \<Rightarrow> event_bus" where
  "bus_step raises (Publish ev) b = publish ev b"
| "bus_step raises StartEnter b = b\<lparr> bus_running := True \<rparr>"
| "bus_step raises StartPass b = start_pass raises b"
| "bus_step raises BusStop b = b\<lparr> bus_running := False \<rparr>"

fun bus_run :: "(handler \<Rightarrow> event \<Rightarrow> bool) \<Rightarrow> bus_op list \<Rightarrow> event_bus \<Rightarrow> event_bus" where
  "bus_run raises [] b = b"
| "bus_run raises (op # ops) b = bus_run raises ops (bus_step raises op b)"




section \<open>CognitiveCore (src/core/cognitive\_core.py)\<close>

text \<open>
  The core holds references to its bus, its memory module and its reasoning engine (the
  last two optional); the model keeps the three objects inside the core's record, since
  every operation of the core reaches them through these references only.
\<close>

record cognitive_core =
  event_bus :: event_bus
  memory :: "memory_module option"
  reasoning :: "reasoning_engine option"
  core_state :: string
  perceptions :: "val list"
  core_running :: bool

text \<open>\<open>on_perception\<close> names the bound method \<open>self._on_perception\<close> as a handler.\<close>

definition CognitiveCore_init ::
  "handler \<Rightarrow> event_bus \<Rightarrow> memory_module option \<Rightarrow> reasoning_engine option \<Rightarrow> cognitive_core" where
  "CognitiveCore_init on_perception bus mem eng =
     \<lparr> event_bus = subscribe ''sensor_data'' on_perception (subscribe ''perception'' on_perception bus),
       memory = mem,
       reasoning = eng,
       core_state = ''idle'',
       perceptions = [],
       core_running = False \<rparr>"

definition entry_val :: "memory_entry \<Rightarrow> val" where
  "entry_val en =
     VDict [(''type'', VStr (entry_type en)), (''data'', entry_data en),
            (''timestamp'', VTime (entry_timestamp en))]"

definition perceive :: "val \<Rightarrow> string \<Rightarrow> time \<Rightarrow> cognitive_core \<Rightarrow> cognitive_core" where
  "perceive data source now c =
     (let perception = VDict [(''data'', data), (''source'', VStr source), (''timestamp'', VTime now)]
      in c\<lparr> perceptions := perceptions c @ [perception],
            memory := map_option (store ''perception'' perception now) (memory c),
            event_bus := emit ''perception_received'' perception ''cognitive_core'' now (event_bus c) \<rparr>)"

definition on_perception_handler :: "event \<Rightarrow> time \<Rightarrow> cognitive_core \<Rightarrow> cognitive_core" where
  "on_perception_handler ev now c = perceive (ev_data ev) (ev_source ev) now c"

text \<open>
  \<open>think\<close> returns \<open>None\<close> without perceptions. Otherwise the context is what
  \<open>recall("recent_context")\<close> gives, or \<open>{}\<close> when that is \<open>None\<close> or empty, and the
  decision comes from the engine, or is the fixed "observe" without one.
\<close>

definition think :: "time \<Rightarrow> cognitive_core \<Rightarrow> val \<times> cognitive_core" where
  "think now c =
     (if perceptions c = [] then (VNone, c)
      else
        (let context =
               (case memory c of
                  None \<Rightarrow> VDict []
                | Some m \<Rightarrow>
                    (case recall ''recent_context'' 10 m of
                       None \<Rightarrow> VDict []
                     | Some es \<Rightarrow> if es = [] then VDict [] else VList (map entry_val es)));
             (dec, eng) =
               (case reasoning c of
                  Some e \<Rightarrow> (case reason (perceptions c) context now e of (d, e') \<Rightarrow> (d, Some e'))
                | None \<Rightarrow> (VDict [(''action'', VStr ''observe''), (''confidence'', VFloat 0.5)], None));
             thoughts =
               VDict [(''perceptions_count'', VInt (int (length (perceptions c)))),
                      (''recent_perceptions'', VList (slice_last 5 (perceptions c))),
                      (''context'', context),
                      (''timestamp'', VTime now),
                      (''decision'', dec)]
         in (thoughts,
             c\<lparr> reasoning := eng,
                event_bus := emit ''thought_completed'' thoughts ''cognitive_core'' now (event_bus c) \<rparr>)))"

definition act :: "val \<Rightarrow> time \<Rightarrow> cognitive_core \<Rightarrow> cognitive_core" where
  "act action_val now c =
     (let action_event = VDict [(''action'', action_val), (''timestamp'', VTime now)]
      in c\<lparr> memory := map_option (store ''action'' action_event now) (memory c),
            event_bus := emit ''action_requested'' action_val ''cognitive_core'' now (event_bus c) \<rparr>)"

text \<open>\<open>decision.get("action")\<close>: defined on dictionaries only; anything else has no \<open>get\<close>.\<close>

definition dict_get :: "val \<Rightarrow> string \<Rightarrow> py_error + val" where
  "dict_get v k =
     (case v of
        VDict kvs \<Rightarrow> Inr (case map_of kvs k of Some x \<Rightarrow> x | None \<Rightarrow> VNone)
      | _ \<Rightarrow> Inl AttributeError)"

definition compact_perceptions :: "cognitive_core \<Rightarrow> cognitive_core" where
  "compact_perceptions c =
     (if 100 < length (perceptions c) then c\<lparr> perceptions := slice_last 50 (perceptions c) \<rparr> else c)"

text \<open>
  \<open>cognitive_cycle\<close>: the exception it raised, if any, and the core as the call leaves
  it. An exception of \<open>decision.get\<close> leaves the cycle before the perceptions are
  compacted.
\<close>

definition cognitive_cycle :: "time \<Rightarrow> cognitive_core \<Rightarrow> py_error option \<times> cognitive_core" where
  "cognitive_cycle now c =
     (case think now c of
        (VDict kvs, c1) \<Rightarrow>
          (case map_of kvs ''decision'' of
             None \<Rightarrow> (None, compact_perceptions c1)
           | Some dec \<Rightarrow>
               (case dict_get dec ''action'' of
                  Inl err \<Rightarrow> (Some err, c1)
                | Inr a \<Rightarrow>
                    (None, compact_perceptions (if a \<noteq> VStr ''observe'' then act dec now c1 else c1))))
      | (_, c1) \<Rightarrow> (None, compact_perceptions c1))"

text \<open>
  \<open>run\<close> is a coroutine: between its steps other tasks call the core. Its steps are
  the entry (flag on, state "running", start event), one pass of the loop
  \<open>while self._running\<close> (a cycle and the sleep when the flag is on), and the
  \<open>finally\<close> block (state "stopped", stop event), which is reached when the loop
  ends, when a cycle raises, and when the task is cancelled while it waits.
\<close>

definition run_enter :: "time \<Rightarrow> cognitive_core \<Rightarrow> cognitive_core" where
  "run_enter now c =
     c\<lparr> core_running := True, core_state := ''running'',
        event_bus := emit ''cognitive_core_started'' (VDict []) ''cognitive_core'' now (event_bus c) \<rparr>"

definition run_finally :: "time \<Rightarrow> cognitive_core \<Rightarrow> cognitive_core" where
  "run_finally now c =
     c\<lparr> core_state := ''stopped'',
        event_bus := emit ''cognitive_core_stopped'' (VDict []) ''cognitive_core'' now (event_bus c) \<rparr>"

definition run_pass :: "time \<Rightarrow> cognitive_core \<Rightarrow> cognitive_core" where
  "run_pass now c =
     (if core_running c
      then (case cognitive_cycle now c of
              (None, c') \<Rightarrow> c'
            | (Some err, c') \<Rightarrow> run_finally now c')
      else run_finally now c)"

definition stop :: "cognitive_core \<Rightarrow> cognitive_core" where
  "stop c = c\<lparr> core_running := False \<rparr>"

text \<open>
  The operations on one core, each at the instant it happens. An operation that raises
  leaves the core as it was at the raise; the caller may go on using the core.
\<close>

datatype core_op =
    Perceive val string
  | OnPerception event
  | Think
  | Act val
  | CognitiveCycle
  | RunEnter
  | RunPass
  | RunCancel
  | Stop

fun core_step :: "time \<times> core_op \<Rightarrow> cognitive_core \<Rightarrow> cognitive_core" where
  "core_step (now, Perceive data source) c = perceive data source now c"
| "core_step (now, OnPerception ev) c = on_perception_handler ev now c"
| "core_step (now, Think) c = snd (think now c)"
| "core_step (now, Act a) c = act a now c"
| "core_step (now, CognitiveCycle) c = snd (cognitive_cycle now c)"
| "core_step (now, RunEnter) c = run_enter now c"
| "core_step (now, RunPass) c = run_pass now c"
| "core_step (now, RunCancel) c = run_finally now c"
| "core_step (now, Stop) c = stop c"

fun core_run :: "(time \<times> core_op) list \<Rightarrow> cognitive_core \<Rightarrow> cognitive_core" where
  "core_run [] c = c"
| "core_run (op # ops) c = core_run ops (core_step op c)"

section \<open>Concrete inputs\<close>

text \<open>A fresh memory module of capacity 10 with no file, and sequences of \<open>store\<close> calls.\<close>

definition empty10 :: memory_module where
  "empty10 = \<lparr> max_short_term = 10, short_term = [], long_term = Map.empty,
                index_by_type = Map.empty, memory_file = Missing \<rparr>"

definition calls_1_to_11 :: "(string \<times> val \<times> time) list" where
  "calls_1_to_11 = map (\<lambda>i. (''x'', VInt i, 1000 + i)) [1, 2, 3, 4, 5, 6, 7, 8, 9, 10, 11]"

definition calls_xy :: "(string \<times> val \<times> time) list" where
  "calls_xy = [(''x'', VInt 1, 1001), (''y'', VInt 2, 1002)]"

definition empty3 :: memory_module where
  "empty3 = \<lparr> max_short_term = 3, short_term = [], long_term = Map.empty,
               index_by_type = Map.empty, memory_file = Missing \<rparr>"

text \<open>
  An engine with one rule "r" of priority 5 whose condition always holds, the same
  engine after 21 calls \<open>adapt("r", 1.0)\<close>, and after 19 calls \<open>adapt("r", 0.0)\<close>.
\<close>

definition always :: "reasoning_context \<Rightarrow> bool option" where
  "always ctx = Some True"

definition go :: "reasoning_context \<Rightarrow> val option" where
  "go ctx = Some (VDict [(''action'', VStr ''go''), (''confidence'', VFloat 0.9)])"

definition engine_r :: reasoning_engine where
  "engine_r = add_rule ''r'' always go 5 ReasoningEngine_init"






definition boom :: "reasoning_context \<Rightarrow> val option" where
  "boom ctx = None"

definition engine_boom :: reasoning_engine where
  "engine_boom = add_rule ''boom'' always boom 5 ReasoningEngine_init"


definition bus_ping :: event_bus where
  "bus_ping = subscribe ''other'' 2 (subscribe ''ping'' 1 EventBus_init)"



text \<open>
  A core with a bus, a memory module and an engine; a run of it that is stopped (entry,
  a perception, a pass with a cycle, \<open>stop\<close>, the pass that ends the loop); and
  operations on the core after that.
\<close>

definition core0 :: cognitive_core where
  "core0 = CognitiveCore_init 0 EventBus_init (Some empty10) (Some engine_r)"

definition run_and_stop :: "(time \<times> core_op) list" where
  "run_and_stop = [(1, RunEnter), (2, Perceive (VInt 7) ''sensor''), (3, RunPass), (4, Stop), (5, RunPass)]"

definition after_stop :: "(time \<times> core_op) list" where
  "after_stop = [(6, Perceive (VInt 8) ''sensor''), (7, CognitiveCycle), (8, Think), (9, Stop)]"

section \<open>Properties of the memory module\<close>

lemma short_term_store:
  "short_term (store t d now m) =
     deque_append (max_short_term m) (short_term m) \<lparr> entry_type = t, entry_data = d, entry_timestamp = now \<rparr>"
  by (simp add: store_def persist_def Let_def)

lemma max_short_term_store: "max_short_term (store t d now m) = max_short_term m"
  by (simp add: store_def persist_def Let_def)

lemma deque_append_recent:
  "deque_append cap (drop (length es - cap) es) x = drop (length (es @ [x]) - cap) (es @ [x])"
proof (cases "length es < cap")
  case True
  then show ?thesis by (simp add: deque_append_def)
next
  case False
  define k where "k = length es - cap"
  have k: "Suc (length es) - cap = Suc k" "k \<le> length es" "cap < Suc (length es - k)"
    using False by (auto simp: k_def)
  have "drop k es @ [x] = drop k (es @ [x])"
    using k(2) by simp
  moreover have "tl (drop k (es @ [x])) = drop (Suc k) (es @ [x])"
    by (metis drop_Suc tl_drop)
  ultimately have "tl (drop k es @ [x]) = drop (Suc k) (es @ [x])"
    by (simp only:)
  moreover have "cap < length (drop k es @ [x])"
    using k(3) by simp
  moreover have "length (es @ [x]) - cap = Suc k"
    using k(1) by simp
  ultimately show ?thesis
    unfolding deque_append_def Let_def k_def [symmetric]
    by (simp only: if_True)
qed

lemma stores_recent:
  "short_term m = drop (length pre - max_short_term m) pre \<Longrightarrow>
   short_term (stores calls m) =
     drop (length (pre @ map entry_of calls) - max_short_term m) (pre @ map entry_of calls)"
proof (induction calls arbitrary: m pre)
  case Nil
  then show ?case by simp
next
  case (Cons c calls)
  obtain t d now where c: "c = (t, d, now)" by (cases c)
  let ?e = "\<lparr> entry_type = t, entry_data = d, entry_timestamp = now \<rparr>"
  have "short_term (store t d now m) =
          drop (length (pre @ [?e]) - max_short_term (store t d now m)) (pre @ [?e])"
    using Cons.prems deque_append_recent [of "max_short_term m" pre ?e]
    by (simp add: short_term_store max_short_term_store)
  from Cons.IH [OF this] show ?case
    by (simp add: c entry_of_def max_short_term_store)
qed

lemma max_short_term_stores: "max_short_term (stores calls m) = max_short_term m"
  by (induction calls arbitrary: m) (auto simp: max_short_term_store)

text \<open>
  Claim C3. A memory module constructed with capacity \<open>max_short_term\<close> starts with an
  empty short-term buffer; after any sequence of \<open>store\<close> calls the buffer is no
  longer than the capacity and holds exactly the entries of the most recent
  \<open>min n max_short_term\<close> of the \<open>n\<close> calls, in the order they were stored. The
  scenario of the claim (capacity 10, eleven stores of 1..11, buffer of length 10 holding
  2..11) is the instance proved right after.
\<close>

theorem short_term_holds_most_recent:
  assumes "MemoryModule_init f cap = Inr m"
  shows "length (short_term (stores calls m)) \<le> max_short_term m
       \<and> max_short_term m = nat cap
       \<and> length (short_term (stores calls m)) = min (length calls) (max_short_term m)
       \<and> short_term (stores calls m) =
           drop (length calls - min (length calls) (max_short_term m)) (map entry_of calls)"
proof -
  from assms have m: "short_term m = []" "max_short_term m = nat cap"
    by (auto simp: MemoryModule_init_def split: if_splits)
  have "short_term (stores calls m) =
          drop (length ([] @ map entry_of calls) - max_short_term m) ([] @ map entry_of calls)"
    by (rule stores_recent) (simp add: m)
  then have eq: "short_term (stores calls m) = drop (length calls - max_short_term m) (map entry_of calls)"
    by simp
  have "length calls - min (length calls) (max_short_term m) = length calls - max_short_term m"
    by simp
  have len: "length (short_term (stores calls m)) = min (length calls) (max_short_term m)"
    by (simp add: eq min_def)
  have "length calls - min (length calls) (max_short_term m) = length calls - max_short_term m"
    by simp
  with eq have "short_term (stores calls m) =
      drop (length calls - min (length calls) (max_short_term m)) (map entry_of calls)"
    by (simp only:)
  with len m(2) show ?thesis
    by simp
qed

theorem short_term_holds_most_recent_witness:
  "MemoryModule_init Missing 10 = Inr empty10
   \<and> length (short_term (stores calls_1_to_11 empty10)) = 10
   \<and> map entry_data (short_term (stores calls_1_to_11 empty10)) =
       map VInt [2, 3, 4, 5, 6, 7, 8, 9, 10, 11]"
proof -
  have init: "MemoryModule_init Missing 10 = Inr empty10"
    by (simp add: MemoryModule_init_def empty10_def)
  have cap: "max_short_term empty10 = 10"
    by (simp add: empty10_def)
  from short_term_holds_most_recent [OF init, of calls_1_to_11]
  show ?thesis
    by (simp add: init cap calls_1_to_11_def entry_of_def)
qed

lemma slice_last_nonempty:
  assumes "1 \<le> limit" "xs \<noteq> []"
  shows "slice_last limit xs \<noteq> [] \<and> last (slice_last limit xs) = last xs"
proof -
  have "0 < nat limit" "0 < length xs"
    using assms by auto
  then have "length xs - nat limit < length xs"
    by arith
  with assms(1) show ?thesis
    by (simp add: slice_last_def)
qed

lemma deque_append_last:
  "deque_append cap q x = [] \<or> (deque_append cap q x \<noteq> [] \<and> last (deque_append cap q x) = x)"
  by (cases q) (auto simp: deque_append_def Let_def)

lemma last_filter_last: "xs \<noteq> [] \<Longrightarrow> P (last xs) \<Longrightarrow> filter P xs \<noteq> [] \<and> last (filter P xs) = last xs"
  by (induction xs) (auto split: if_splits)

lemma long_term_store:
  "long_term (store t d now m) =
     (long_term m)(t \<mapsto> (case long_term m t of None \<Rightarrow> [] | Some es \<Rightarrow> es)
                           @ [\<lparr> entry_type = t, entry_data = d, entry_timestamp = now \<rparr>])"
  by (simp add: store_def persist_def Let_def)

text \<open>
  Claim C8. In every state of a memory module, \<open>store t d\<close> followed at once by
  \<open>recall t limit\<close> with \<open>limit \<ge> 1\<close> returns a list, not \<open>None\<close>; the list is not
  empty and its last element is the entry just created, whose type is \<open>t\<close> and whose
  data is \<open>d\<close>.
\<close>

theorem recall_after_store:
  assumes "1 \<le> limit"
  shows "\<exists>ys. recall t limit (store t d now m) = Some ys \<and> ys \<noteq> []
            \<and> last ys = \<lparr> entry_type = t, entry_data = d, entry_timestamp = now \<rparr>
            \<and> entry_type (last ys) = t \<and> entry_data (last ys) = d"
proof -
  let ?e = "\<lparr> entry_type = t, entry_data = d, entry_timestamp = now \<rparr>"
  let ?m = "store t d now m"
  let ?res = "filter (\<lambda>entry. entry_type entry = t) (short_term ?m)"
  show ?thesis
  proof (cases "?res = []")
    case True
    have lt: "long_term ?m t = Some ((case long_term m t of None \<Rightarrow> [] | Some es \<Rightarrow> es) @ [?e])"
      by (simp add: long_term_store)
    have "recall t limit ?m = Some (slice_last limit ((case long_term m t of None \<Rightarrow> [] | Some es \<Rightarrow> es) @ [?e]))"
      using True by (simp add: recall_def lt)
    moreover have "slice_last limit ((case long_term m t of None \<Rightarrow> [] | Some es \<Rightarrow> es) @ [?e]) \<noteq> []
                 \<and> last (slice_last limit ((case long_term m t of None \<Rightarrow> [] | Some es \<Rightarrow> es) @ [?e])) = ?e"
      using slice_last_nonempty [OF assms, of "(case long_term m t of None \<Rightarrow> [] | Some es \<Rightarrow> es) @ [?e]"]
      by simp
    ultimately show ?thesis by simp
  next
    case False
    then have ne: "short_term ?m \<noteq> []" by auto
    with deque_append_last [of "max_short_term m" "short_term m" ?e]
    have "last (short_term ?m) = ?e"
      by (simp add: short_term_store)
    with ne have "?res \<noteq> [] \<and> last ?res = ?e"
      using last_filter_last [of "short_term ?m" "\<lambda>entry. entry_type entry = t"] by simp
    moreover have "recall t limit ?m = Some (slice_last limit ?res)"
      using False by (simp add: recall_def)
    ultimately show ?thesis
      using slice_last_nonempty [OF assms, of ?res] by simp
  qed
qed

lemma stores_calls_xy:
  "stores calls_xy empty10 =
     \<lparr> max_short_term = 10,
       short_term = [\<lparr> entry_type = ''x'', entry_data = VInt 1, entry_timestamp = 1001 \<rparr>,
                     \<lparr> entry_type = ''y'', entry_data = VInt 2, entry_timestamp = 1002 \<rparr>],
       long_term = [''x'' \<mapsto> [\<lparr> entry_type = ''x'', entry_data = VInt 1, entry_timestamp = 1001 \<rparr>],
                    ''y'' \<mapsto> [\<lparr> entry_type = ''y'', entry_data = VInt 2, entry_timestamp = 1002 \<rparr>]],
       index_by_type = [''x'' \<mapsto> [0], ''y'' \<mapsto> [0]],
       memory_file = Missing \<rparr>"
  by (simp add: calls_xy_def empty10_def store_def deque_append_def Let_def)

theorem recall_after_store_witness:
  "(1::int) \<le> 3 \<and>
   recall ''x'' 3 (store ''x'' (VInt 3) 1003 (stores calls_xy empty10)) =
     Some [\<lparr> entry_type = ''x'', entry_data = VInt 1, entry_timestamp = 1001 \<rparr>,
           \<lparr> entry_type = ''x'', entry_data = VInt 3, entry_timestamp = 1003 \<rparr>]"
  using recall_after_store [of 3 "''x''" "VInt 3" 1003 "stores calls_xy empty10"]
  by (simp add: stores_calls_xy recall_def store_def deque_append_def slice_last_def Let_def)


lemma stores_append: "stores (xs @ ys) m = stores ys (stores xs m)"
  by (induction xs arbitrary: m) auto

lemma length_short_term_stores:
  assumes "short_term m = []"
  shows "length (short_term (stores calls m)) = min (length calls) (max_short_term m)"
proof -
  have "short_term (stores calls m) =
          drop (length ([] @ map entry_of calls) - max_short_term m) ([] @ map entry_of calls)"
    by (rule stores_recent) (simp add: assms)
  then show ?thesis by (simp add: min_def)
qed

lemma last_saved_store:
  "last_saved (store t d now m) =
     (if length (short_term (store t d now m)) mod 10 = 0 then Some now else last_saved m)"
  by (simp add: store_def persist_def last_saved_def Let_def)

lemma last_saved_stores_snoc:
  assumes "short_term m = []"
  shows "last_saved (stores (calls @ [(t, d, now)]) m) =
           (if min (Suc (length calls)) (max_short_term m) mod 10 = 0 then Some now
            else last_saved (stores calls m))"
proof -
  have "length (short_term (stores (calls @ [(t, d, now)]) m)) = min (Suc (length calls)) (max_short_term m)"
    using length_short_term_stores [OF assms, of "calls @ [(t, d, now)]"] by simp
  then show ?thesis
    using last_saved_store [of t d now "stores calls m"]
    by (simp add: stores_append)
qed

lemma never_saved_small_capacity:
  assumes "short_term m = []" "0 < max_short_term m" "max_short_term m < 10"
  shows "last_saved (stores calls m) = last_saved m"
proof (induction calls rule: rev_induct)
  case Nil
  then show ?case by simp
next
  case (snoc c calls)
  obtain t d now where c: "c = (t, d, now)" by (cases c)
  have "min (Suc (length calls)) (max_short_term m) mod 10 \<noteq> 0"
    using assms(2,3) by (auto simp: min_def)
  with snoc show ?case
    by (simp add: c last_saved_stores_snoc [OF assms(1)])
qed

text \<open>
  Claim C5 (every tenth store persists). \<open>store\<close> tests the length of the short-term
  buffer, not the number of calls, and the length stops growing at the capacity. With
  capacity 10 the eleventh store (at instant 1011) writes the file although 11 is not a
  multiple of 10; with capacity 3 the tenth store does not write it.
\<close>

theorem store_persist_saturates:
  "last_saved (stores calls_1_to_11 empty10) = Some 1011
   \<and> last_saved (stores (take 10 calls_1_to_11) empty3) = None"
proof -
  have split: "calls_1_to_11 = take 10 calls_1_to_11 @ [(''x'', VInt 11, 1011)]"
    by (simp add: calls_1_to_11_def)
  have "last_saved (stores (take 10 calls_1_to_11 @ [(''x'', VInt 11, 1011)]) empty10) = Some 1011"
    by (subst last_saved_stores_snoc) (simp_all add: empty10_def calls_1_to_11_def)
  moreover have "last_saved (stores (take 10 calls_1_to_11) empty3) = last_saved empty3"
    by (rule never_saved_small_capacity) (simp_all add: empty3_def)
  ultimately show ?thesis
    using split by (simp add: last_saved_def empty3_def)
qed

section \<open>Properties of the reasoning engine\<close>



























text \<open>
  Claim C10. When the action of the selected rule raises, \<open>reason\<close> returns \<open>None\<close>;
  the rules, and with them the execution count of the selected rule, and the weights are
  unchanged; and the history gains a record that names the rule and has the decision
  \<open>None\<close> (it is the last record, also after the history was cut to its last 500).
  \<open>reason\<close> has no exceptional result: every exception of a condition or an action is
  caught in \<open>evaluate\<close> and \<open>execute\<close>.
\<close>

theorem reason_action_raises:
  assumes "best_rule e (make_context ps cx now) = Some b"
    and "action (rules e ! b) (make_context ps cx now) = None"
  shows "fst (reason ps cx now e) = VNone
      \<and> rules (snd (reason ps cx now e)) = rules e
      \<and> execution_count (rules (snd (reason ps cx now e)) ! b) = execution_count (rules e ! b)
      \<and> adaptive_weights (snd (reason ps cx now e)) = adaptive_weights e
      \<and> reasoning_history (snd (reason ps cx now e)) =
          truncate_history (reasoning_history e @
            [\<lparr> rule_used = rule_name (rules e ! b),
               applicable_names = map (\<lambda>i. rule_name (rules e ! i))
                                      (applicable_rules e (make_context ps cx now)),
               decision = VNone,
               record_timestamp = now \<rparr>])
      \<and> reasoning_history (snd (reason ps cx now e)) \<noteq> []
      \<and> decision (last (reasoning_history (snd (reason ps cx now e)))) = VNone
      \<and> rule_used (last (reasoning_history (snd (reason ps cx now e)))) = rule_name (rules e ! b)"
proof -
  let ?rec = "\<lparr> rule_used = rule_name (rules e ! b),
               applicable_names = map (\<lambda>i. rule_name (rules e ! i))
                                      (applicable_rules e (make_context ps cx now)),
               decision = VNone,
               record_timestamp = now \<rparr>"
  have r: "reason ps cx now e =
      (VNone, e\<lparr> rules := (rules e)[b := rules e ! b],
                 reasoning_history := truncate_history (reasoning_history e @ [?rec]) \<rparr>)"
    using assms by (simp add: reason_def execute_def Let_def)
  have t: "truncate_history (reasoning_history e @ [?rec]) \<noteq> []
         \<and> last (truncate_history (reasoning_history e @ [?rec])) = ?rec"
    using slice_last_nonempty [of 500 "reasoning_history e @ [?rec]"]
    by (simp add: truncate_history_def)
  show ?thesis
    unfolding r using t by simp
qed

theorem reason_action_raises_witness:
  "best_rule engine_boom (make_context [VInt 7] (VDict []) 2000) = Some 0
   \<and> action (rules engine_boom ! 0) (make_context [VInt 7] (VDict []) 2000) = None
   \<and> fst (reason [VInt 7] (VDict []) 2000 engine_boom) = VNone
   \<and> execution_count (rules (snd (reason [VInt 7] (VDict []) 2000 engine_boom)) ! 0) = 0
   \<and> map decision (reasoning_history (snd (reason [VInt 7] (VDict []) 2000 engine_boom))) = [VNone]"
proof -
  have rules: "rules engine_boom = [Rule_init ''boom'' always boom 5]"
    by (simp add: engine_boom_def add_rule_def ReasoningEngine_init_def)
  have hist: "reasoning_history engine_boom = []"
    by (simp add: engine_boom_def add_rule_def ReasoningEngine_init_def)
  have b: "best_rule engine_boom (make_context [VInt 7] (VDict []) 2000) = Some 0"
    by (simp add: best_rule_def applicable_rules_def rules evaluate_def Rule_init_def always_def)
  have a: "action (rules engine_boom ! 0) (make_context [VInt 7] (VDict []) 2000) = None"
    by (simp add: rules Rule_init_def boom_def)
  from reason_action_raises [OF b a] show ?thesis
    by (simp add: b rules hist Rule_init_def boom_def truncate_history_def)
qed

section \<open>Properties of the event bus\<close>

lemma dispatch_to_fields:
  "listeners (dispatch_to raises ev hs b) = listeners b"
  "event_queue (dispatch_to raises ev hs b) = event_queue b"
  "bus_running (dispatch_to raises ev hs b) = bus_running b"
  "invocations (dispatch_to raises ev hs b) = invocations b @ map (\<lambda>h. (h, ev)) hs"
  by (induction hs arbitrary: b) (simp_all add: Let_def)

lemma listeners_get_cong: "listeners b' = listeners b \<Longrightarrow> listeners_get b' t = listeners_get b t"
  by (simp add: listeners_get_def)



lemma bus_step_listeners: "listeners (bus_step raises op b) = listeners b"
  by (cases op) (simp_all add: publish_def start_pass_def dispatch_def dispatch_to_fields split: list.split)

lemma listeners_get_queue [simp]: "listeners_get (b\<lparr>event_queue := q\<rparr>) t = listeners_get b t"
  by (simp add: listeners_get_def)





lemma bus_run_listeners: "listeners (bus_run raises ops b) = listeners b"
  by (induction ops arbitrary: b) (simp_all add: bus_step_listeners)









text \<open>
  Claim C6 (\<open>unsubscribe\<close> of a handler that is not registered is a no-op). For a type
  that was never subscribed to it is; for a type that has a handler list, \<open>list.remove\<close>
  raises ValueError when the handler is not in the list.
\<close>

theorem unsubscribe_unregistered_raises:
  "unsubscribe ''ping'' 2 bus_ping = Inl ValueError
   \<and> unsubscribe ''never'' 2 bus_ping = Inr bus_ping"
  by (simp add: unsubscribe_def list_remove_def bus_ping_def subscribe_def EventBus_init_def
      listeners_get_def)

section \<open>Properties of the cognitive core\<close>

lemma core_state_perceive: "core_state (perceive d s now c) = core_state c"
  by (simp add: perceive_def Let_def)

lemma core_state_think: "core_state (snd (think now c)) = core_state c"
  by (simp add: think_def Let_def split: option.split prod.split)

lemma core_state_act: "core_state (act a now c) = core_state c"
  by (simp add: act_def Let_def)

lemma core_state_compact: "core_state (compact_perceptions c) = core_state c"
  by (simp add: compact_perceptions_def)

lemma core_state_cycle: "core_state (snd (cognitive_cycle now c)) = core_state c"
proof -
  obtain v c1 where t: "think now c = (v, c1)" by (cases "think now c")
  have c1: "core_state c1 = core_state c"
    using core_state_think [of now c] by (simp add: t)
  show ?thesis
    by (simp add: cognitive_cycle_def t c1 core_state_compact core_state_act
        split: val.split option.split sum.split)
qed

lemma core_state_run_finally: "core_state (run_finally now c) = ''stopped''"
  by (simp add: run_finally_def)

lemma core_state_run_pass:
  "core_state c = ''stopped'' \<Longrightarrow> core_state (run_pass now c) = ''stopped''"
proof -
  assume s: "core_state c = ''stopped''"
  obtain r c1 where cy: "cognitive_cycle now c = (r, c1)" by (cases "cognitive_cycle now c")
  have "core_state c1 = ''stopped''"
    using core_state_cycle [of now c] s by (simp add: cy)
  then show ?thesis
    by (simp add: run_pass_def cy core_state_run_finally split: option.split)
qed

lemma core_step_stays_stopped:
  assumes "core_state c = ''stopped''" and "snd step \<noteq> RunEnter"
  shows "core_state (core_step step c) = ''stopped''"
proof -
  obtain now op where st: "step = (now, op)" by (cases step)
  with assms(2) have ne: "op \<noteq> RunEnter" by simp
  show ?thesis
    unfolding st using assms(1) ne
    by (cases op)
      (simp_all add: core_state_perceive on_perception_handler_def core_state_think core_state_act
        core_state_cycle core_state_run_pass core_state_run_finally stop_def)
qed

lemma core_state_run_and_stop: "core_state (core_run run_and_stop core0) = ''stopped''"
  by (simp add: run_and_stop_def run_pass_def [of 5] stop_def core_state_run_finally)

text \<open>
  Claim C7 as stated fails: \<open>run\<close> sets the state to "running" without looking at
  it. After a run that was stopped and has ended, the state is "stopped", and a second
  call of \<open>run\<close> on the same core makes it "running" again.
\<close>

theorem stopped_is_left_by_run_counterexample:
  "core_state (core_run run_and_stop core0) = ''stopped''
   \<and> core_state (core_run (run_and_stop @ [(6, RunEnter)]) core0) = ''running''"
proof -
  have "core_run (run_and_stop @ [(6, RunEnter)]) core0 = run_enter 6 (core_run run_and_stop core0)"
    by (simp add: run_and_stop_def)
  then show ?thesis
    by (simp add: core_state_run_and_stop run_enter_def)
qed

text \<open>
  Claim C7, amended. Once the state of a core is "stopped", it stays "stopped" under
  every sequence of operations that does not enter \<open>run\<close> again (perceive, the
  perception handler, think, act, cognitive\_cycle, stop, and the steps that remain of a
  run in progress); entering \<open>run\<close> again sets it to "running".
\<close>

theorem stopped_until_run_again:
  assumes "core_state c = ''stopped''" and "RunEnter \<notin> snd ` set ops"
  shows "core_state (core_run ops c) = ''stopped''
       \<and> core_state (core_step (now, RunEnter) (core_run ops c)) = ''running''"
proof -
  from assms have "core_state (core_run ops c) = ''stopped''"
  proof (induction ops arbitrary: c)
    case Nil
    then show ?case by simp
  next
    case (Cons step ops)
    from Cons.prems have "core_state (core_step step c) = ''stopped''"
      by (intro core_step_stays_stopped) auto
    with Cons show ?case by simp
  qed
  then show ?thesis
    by (simp add: run_enter_def)
qed

theorem stopped_until_run_again_witness:
  "core_state (core_run run_and_stop core0) = ''stopped''
   \<and> RunEnter \<notin> snd ` set after_stop
   \<and> core_state (core_run after_stop (core_run run_and_stop core0)) = ''stopped''
   \<and> core_state (core_step (10, RunEnter) (core_run after_stop (core_run run_and_stop core0))) = ''running''"
proof -
  have h: "RunEnter \<notin> snd ` set after_stop"
    by (simp add: after_stop_def)
  from stopped_until_run_again [OF core_state_run_and_stop h, of 10] h core_state_run_and_stop
  show ?thesis by blast
qed

end
